theory Spec2Isabelle
  imports
    Main
    "HOL-Library.Char_ord"
    "HOL-Library.List_Lexorder"
    "HOL-Library.Product_Lexorder"
    "HOL-Library.Option_ord"
begin

section \<open>Strings\<close>

text \<open>
  Text values are byte strings. The JavaScript helpers \<open>trim\<close> and \<open>toLowerCase\<close> and
  SQLite's \<open>LOWER\<close> and \<open>LIKE\<close> are modelled on ASCII: the white space that \<open>trim\<close>
  removes is tab, line feed, vertical tab, form feed, carriage return and space, and
  only the letters A to Z have a lower-case form. Text comparison in SQLite (BINARY
  collation) is byte-wise lexicographic, which is the order on \<open>string\<close> used here.
\<close>

definition isSpace :: "char \<Rightarrow> bool" where
  "isSpace c = (c \<in> set [CHR 0x09, CHR 0x0A, CHR 0x0B, CHR 0x0C, CHR 0x0D, CHR 0x20])"

definition trim :: "string \<Rightarrow> string" where
  "trim s = rev (dropWhile isSpace (rev (dropWhile isSpace s)))"

definition lowerChar :: "char \<Rightarrow> char" where
  "lowerChar c =
     (case map_of (zip ''ABCDEFGHIJKLMNOPQRSTUVWXYZ'' ''abcdefghijklmnopqrstuvwxyz'') c of
        Some l \<Rightarrow> l
      | None \<Rightarrow> c)"

definition toLowerCase :: "string \<Rightarrow> string" where
  "toLowerCase s = map lowerChar s"

text \<open>Decimal rendering of a counter, as a template literal does for a number.\<close>

definition digitChar :: "nat \<Rightarrow> char" where
  "digitChar d = ''0123456789'' ! d"

fun showNat :: "nat \<Rightarrow> string" where
  "showNat n = (if n < 10 then [digitChar n] else showNat (n div 10) @ [digitChar (n mod 10)])"

declare showNat.simps [simp del]

text \<open>
  SQLite's \<open>LIKE\<close>: \<open>%\<close> matches any run of characters, \<open>_\<close> any one character,
  and letters match without regard to (ASCII) case.
\<close>

fun sql_like :: "string \<Rightarrow> string \<Rightarrow> bool" where
  "sql_like [] s = (s = [])"
| "sql_like (p # ps) [] = (p = CHR ''%'' \<and> sql_like ps [])"
| "sql_like (p # ps) (c # cs) =
     (if p = CHR ''%'' then sql_like ps (c # cs) \<or> sql_like (p # ps) cs
      else (p = CHR ''_'' \<or> lowerChar p = lowerChar c) \<and> sql_like ps cs)"

section \<open>The persistent store\<close>

text \<open>The four tables of \<open>001_init.sql\<close>; a table is the list of its rows in insertion order.\<close>

record project_row =
  p_id :: string
  p_name :: string
  p_color :: "string option"
  p_icon :: "string option"
  p_sort_order :: int
  p_created_at :: string

record task_row =
  t_id :: string
  t_project_id :: "string option"
  t_title :: string
  t_notes :: string
  t_completed :: int
  t_priority :: int
  t_due_at :: "string option"
  t_sort_order :: int
  t_created_at :: string
  t_updated_at :: string

record tag_row =
  g_id :: string
  g_name :: string

text \<open>A row of \<open>task_tags\<close> is the pair \<open>(task_id, tag_id)\<close>.\<close>

type_synonym task_tag_row = "string \<times> string"

record store =
  projects :: "project_row list"
  tasks :: "task_row list"
  tags :: "tag_row list"
  task_tags :: "task_tag_row list"


definition project_ids :: "store \<Rightarrow> string set" where
  "project_ids s = p_id ` set (projects s)"

definition task_ids :: "store \<Rightarrow> string set" where
  "task_ids s = t_id ` set (tasks s)"

definition tag_ids :: "store \<Rightarrow> string set" where
  "tag_ids s = g_id ` set (tags s)"

datatype error = Thrown string | Constraint | TxnState | Fault

section \<open>The SQL statements the data layer issues\<close>

text \<open>
  Each statement is a function of the foreign-key switch and the store. A statement that
  violates a constraint fails as a whole and changes nothing. With foreign keys on, the
  schema's actions run: deleting a project sets \<open>project_id\<close> of its tasks to NULL,
  deleting a task or a tag deletes its \<open>task_tags\<close> rows, and a row may only refer to
  a parent that exists. \<open>INSERT OR REPLACE\<close> deletes the rows that conflict on the
  primary key (or on the unique tag name), with those actions, and then inserts.
\<close>

text \<open>\<open>INSERT INTO projects (...) VALUES (...)\<close>\<close>

definition insert_project :: "project_row \<Rightarrow> store \<Rightarrow> error + store" where
  "insert_project r s =
     (if p_id r \<in> project_ids s then Inl Constraint
      else Inr (s\<lparr>projects := projects s @ [r]\<rparr>))"

text \<open>\<open>UPDATE tasks SET project_id = $1, updated_at = $2 WHERE project_id = $3\<close>\<close>

definition update_tasks_project :: "bool \<Rightarrow> string \<Rightarrow> string \<Rightarrow> string \<Rightarrow> store \<Rightarrow> error + store" where
  "update_tasks_project fk inboxId now projectId s =
     (if fk \<and> (\<exists>t \<in> set (tasks s). t_project_id t = Some projectId) \<and> inboxId \<notin> project_ids s
      then Inl Constraint
      else Inr (s\<lparr>tasks :=
        map (\<lambda>t. if t_project_id t = Some projectId
                  then t\<lparr>t_project_id := Some inboxId, t_updated_at := now\<rparr> else t) (tasks s)\<rparr>))"

text \<open>\<open>DELETE FROM projects WHERE id = $1\<close>\<close>

definition delete_project :: "bool \<Rightarrow> string \<Rightarrow> store \<Rightarrow> store" where
  "delete_project fk projectId s =
     s\<lparr>projects := filter (\<lambda>p. p_id p \<noteq> projectId) (projects s),
       tasks := (if fk \<and> projectId \<in> project_ids s
                 then map (\<lambda>t. if t_project_id t = Some projectId
                                then t\<lparr>t_project_id := None\<rparr> else t) (tasks s)
                 else tasks s)\<rparr>"

text \<open>\<open>UPDATE tasks SET sort_order = $1, updated_at = $2 WHERE id = $3 AND project_id IS $4\<close>\<close>

definition update_task_sort :: "int \<Rightarrow> string \<Rightarrow> string \<Rightarrow> string option \<Rightarrow> store \<Rightarrow> store" where
  "update_task_sort i now taskId projectId s =
     s\<lparr>tasks := map (\<lambda>t. if t_id t = taskId \<and> t_project_id t = projectId
                          then t\<lparr>t_sort_order := i, t_updated_at := now\<rparr> else t) (tasks s)\<rparr>"

text \<open>\<open>INSERT INTO tasks (...) VALUES (...)\<close>\<close>

definition fk_project_ok :: "bool \<Rightarrow> string option \<Rightarrow> store \<Rightarrow> bool" where
  "fk_project_ok fk pid s =
     (case pid of None \<Rightarrow> True | Some p \<Rightarrow> \<not> fk \<or> p \<in> project_ids s)"

definition insert_task :: "bool \<Rightarrow> task_row \<Rightarrow> store \<Rightarrow> error + store" where
  "insert_task fk r s =
     (if t_id r \<in> task_ids s \<or> \<not> fk_project_ok fk (t_project_id r) s then Inl Constraint
      else Inr (s\<lparr>tasks := tasks s @ [r]\<rparr>))"

text \<open>\<open>INSERT OR REPLACE INTO projects (...) VALUES (...)\<close>\<close>

definition replace_project :: "bool \<Rightarrow> project_row \<Rightarrow> store \<Rightarrow> store" where
  "replace_project fk r s =
     (let s1 = delete_project fk (p_id r) s in s1\<lparr>projects := projects s1 @ [r]\<rparr>)"

text \<open>\<open>INSERT OR REPLACE INTO tasks (...) VALUES (...)\<close>\<close>

definition replace_task :: "bool \<Rightarrow> task_row \<Rightarrow> store \<Rightarrow> error + store" where
  "replace_task fk r s =
     (if \<not> fk_project_ok fk (t_project_id r) s then Inl Constraint
      else Inr (s\<lparr>tasks := filter (\<lambda>t. t_id t \<noteq> t_id r) (tasks s) @ [r],
                  task_tags := (if fk \<and> t_id r \<in> task_ids s
                                then filter (\<lambda>tt. fst tt \<noteq> t_id r) (task_tags s)
                                else task_tags s)\<rparr>))"

text \<open>\<open>INSERT OR REPLACE INTO tags (id, name) VALUES ($1,$2)\<close>; \<open>name\<close> is UNIQUE.\<close>

definition replace_tag :: "bool \<Rightarrow> tag_row \<Rightarrow> store \<Rightarrow> store" where
  "replace_tag fk r s =
     (let clash = (\<lambda>g. g_id g = g_id r \<or> g_name g = g_name r);
          gone = g_id ` set (filter clash (tags s))
      in s\<lparr>tags := filter (\<lambda>g. \<not> clash g) (tags s) @ [r],
           task_tags := (if fk then filter (\<lambda>tt. snd tt \<notin> gone) (task_tags s)
                         else task_tags s)\<rparr>)"

text \<open>\<open>INSERT OR REPLACE INTO task_tags (task_id, tag_id) VALUES ($1,$2)\<close>\<close>

definition replace_task_tag :: "bool \<Rightarrow> task_tag_row \<Rightarrow> store \<Rightarrow> error + store" where
  "replace_task_tag fk r s =
     (if fk \<and> (fst r \<notin> task_ids s \<or> snd r \<notin> tag_ids s) then Inl Constraint
      else Inr (s\<lparr>task_tags := filter (\<lambda>tt. tt \<noteq> r) (task_tags s) @ [r]\<rparr>))"

section \<open>The connection\<close>

text \<open>
  \<open>SqlDb\<close>: one connection, with the store it shows, the snapshot taken by \<open>BEGIN\<close>
  (\<open>None\<close> outside a transaction), and the \<open>foreign_keys\<close> pragma. For fault injection
  \<open>trip = Some n\<close> makes the \<open>execute\<close> call after \<open>n\<close> further ones throw, once;
  \<open>trip = None\<close> injects nothing.
\<close>

record db =
  tables :: store
  snapshot :: "store option"
  foreign_keys :: bool
  trip :: "nat option"

datatype stmt =
    Begin
  | Commit
  | Rollback
  | PragmaForeignKeysOn
  | InsertProject project_row
  | UpdateTasksProject string string string
  | DeleteProject string
  | UpdateTaskSort int string string "string option"
  | InsertTask task_row
  | ReplaceProject project_row
  | ReplaceTask task_row
  | ReplaceTag tag_row
  | ReplaceTaskTag task_tag_row

definition on_tables :: "(store \<Rightarrow> error + store) \<Rightarrow> db \<Rightarrow> error + db" where
  "on_tables f d = (case f (tables d) of Inl e \<Rightarrow> Inl e | Inr s \<Rightarrow> Inr (d\<lparr>tables := s\<rparr>))"

fun exec_stmt :: "stmt \<Rightarrow> db \<Rightarrow> error + db" where
  "exec_stmt Begin d =
     (case snapshot d of Some _ \<Rightarrow> Inl TxnState
      | None \<Rightarrow> Inr (d\<lparr>snapshot := Some (tables d)\<rparr>))"
| "exec_stmt Commit d =
     (case snapshot d of None \<Rightarrow> Inl TxnState
      | Some _ \<Rightarrow> Inr (d\<lparr>snapshot := None\<rparr>))"
| "exec_stmt Rollback d =
     (case snapshot d of None \<Rightarrow> Inl TxnState
      | Some s \<Rightarrow> Inr (d\<lparr>tables := s, snapshot := None\<rparr>))"
| "exec_stmt PragmaForeignKeysOn d =
     (case snapshot d of Some _ \<Rightarrow> Inr d
      | None \<Rightarrow> Inr (d\<lparr>foreign_keys := True\<rparr>))"
| "exec_stmt (InsertProject r) d = on_tables (insert_project r) d"
| "exec_stmt (UpdateTasksProject inboxId now projectId) d =
     on_tables (update_tasks_project (foreign_keys d) inboxId now projectId) d"
| "exec_stmt (DeleteProject projectId) d =
     on_tables (\<lambda>s. Inr (delete_project (foreign_keys d) projectId s)) d"
| "exec_stmt (UpdateTaskSort i now taskId projectId) d =
     on_tables (\<lambda>s. Inr (update_task_sort i now taskId projectId s)) d"
| "exec_stmt (InsertTask r) d = on_tables (insert_task (foreign_keys d) r) d"
| "exec_stmt (ReplaceProject r) d =
     on_tables (\<lambda>s. Inr (replace_project (foreign_keys d) r s)) d"
| "exec_stmt (ReplaceTask r) d = on_tables (replace_task (foreign_keys d) r) d"
| "exec_stmt (ReplaceTag r) d = on_tables (\<lambda>s. Inr (replace_tag (foreign_keys d) r s)) d"
| "exec_stmt (ReplaceTaskTag r) d = on_tables (replace_task_tag (foreign_keys d) r) d"

text \<open>
  \<open>db.execute\<close>: the outcome (\<open>Inl\<close> when it throws) and the connection afterwards. A
  statement that throws leaves the store and the transaction as they were.
\<close>

definition tick :: "db \<Rightarrow> db" where
  "tick d = d\<lparr>trip := map_option (\<lambda>n. n - 1) (trip d)\<rparr>"

definition execute :: "stmt \<Rightarrow> db \<Rightarrow> (error + unit) \<times> db" where
  "execute q d =
     (case trip d of
        Some 0 \<Rightarrow> (Inl Fault, d\<lparr>trip := None\<rparr>)
      | _ \<Rightarrow>
          (case exec_stmt q (tick d) of
             Inl e \<Rightarrow> (Inl e, tick d)
           | Inr d2 \<Rightarrow> (Inr (), d2)))"

section \<open>The model types of \<open>types.ts\<close>\<close>

record Project =
  pj_id :: string
  pj_name :: string
  pj_color :: "string option"
  pj_icon :: "string option"
  pj_sortOrder :: int
  pj_createdAt :: string

record Task =
  tk_id :: string
  tk_projectId :: "string option"
  tk_title :: string
  tk_notes :: string
  tk_completed :: bool
  tk_priority :: int
  tk_dueAt :: "string option"
  tk_sortOrder :: int
  tk_createdAt :: string
  tk_updatedAt :: string

datatype SmartView = Today | Upcoming | All | Completed

definition mapTask :: "task_row \<Rightarrow> Task" where
  "mapTask row =
     \<lparr>tk_id = t_id row, tk_projectId = t_project_id row, tk_title = t_title row,
      tk_notes = t_notes row, tk_completed = (t_completed row \<noteq> 0),
      tk_priority = t_priority row, tk_dueAt = t_due_at row,
      tk_sortOrder = t_sort_order row, tk_createdAt = t_created_at row,
      tk_updatedAt = t_updated_at row\<rparr>"

section \<open>\<open>repo.ts\<close>: projects\<close>

text \<open>
  The values the code draws from its environment are parameters: \<open>newId\<close> is the result
  of \<open>crypto.randomUUID()\<close>, \<open>createdAt\<close>, \<open>updatedAt\<close> and \<open>now\<close> results of
  \<open>nowIso()\<close>, \<open>today\<close> the result of \<open>todayIsoDate()\<close>.
\<close>

definition max_plus_one :: "int list \<Rightarrow> int" where
  "max_plus_one xs = (if xs = [] then -1 else Max (set xs)) + 1"

definition suffixed :: "string \<Rightarrow> nat \<Rightarrow> string" where
  "suffixed baseName n = baseName @ '' ('' @ showNat n @ '')''"

text \<open>
  The loop \<open>while (existingLower.has(`${baseName} (${n})`.toLowerCase())) n++\<close>. It ends
  because the candidates for different \<open>n\<close> are different strings and only finitely
  many names exist.
\<close>

lemma showNat_nonempty: "showNat n \<noteq> []"
  by (subst showNat.simps) simp

lemma digitChar_inj: "a < 10 \<Longrightarrow> b < 10 \<Longrightarrow> digitChar a = digitChar b \<Longrightarrow> a = b"
proof -
  assume a: "a < 10" and b: "b < 10" and e: "digitChar a = digitChar b"
  have d: "distinct ''0123456789''" by simp
  have "a < length ''0123456789''" "b < length ''0123456789''" using a b by simp_all
  with d e show "a = b" unfolding digitChar_def by (simp only: nth_eq_iff_index_eq)
qed

lemma showNat_inj: "showNat n = showNat m \<Longrightarrow> n = m"
proof (induction n arbitrary: m rule: showNat.induct)
  case (1 n)
  show ?case
  proof (cases "n < 10")
    case True
    then have sn: "showNat n = [digitChar n]" by (subst showNat.simps) simp
    show ?thesis
    proof (cases "m < 10")
      case True
      then have "showNat m = [digitChar m]" by (subst showNat.simps) simp
      with sn "1.prems" have "digitChar n = digitChar m" by simp
      with \<open>n < 10\<close> True show ?thesis by (rule digitChar_inj)
    next
      case False
      then have "showNat m = showNat (m div 10) @ [digitChar (m mod 10)]"
        by (subst showNat.simps) simp
      with sn "1.prems" showNat_nonempty [of "m div 10"] show ?thesis by simp
    qed
  next
    case False
    then have sn: "showNat n = showNat (n div 10) @ [digitChar (n mod 10)]"
      by (subst showNat.simps) simp
    show ?thesis
    proof (cases "m < 10")
      case True
      then have "showNat m = [digitChar m]" by (subst showNat.simps) simp
      with sn "1.prems" showNat_nonempty [of "n div 10"] show ?thesis by simp
    next
      case m: False
      then have sm: "showNat m = showNat (m div 10) @ [digitChar (m mod 10)]"
        by (subst showNat.simps) simp
      from sn sm "1.prems" have e1: "showNat (n div 10) = showNat (m div 10)"
        and e2: "digitChar (n mod 10) = digitChar (m mod 10)" by simp_all
      from "1.IH" [OF False e1] have "n div 10 = m div 10" .
      moreover from e2 have "n mod 10 = m mod 10" by (intro digitChar_inj) simp_all
      ultimately show ?thesis by (metis div_mult_mod_eq)
    qed
  qed
qed

lemma lowerChar_digits: "\<forall>c \<in> set ''0123456789''. lowerChar c = c"
  by (simp add: lowerChar_def)

lemma lowerChar_digit: "c \<in> set ''0123456789'' \<Longrightarrow> lowerChar c = c"
  using lowerChar_digits by blast

lemma showNat_digits: "set (showNat n) \<subseteq> set ''0123456789''"
proof (induction n rule: showNat.induct)
  case (1 n)
  have d: "digitChar k \<in> set ''0123456789''" if "k < 10" for k
    unfolding digitChar_def using that by (intro nth_mem) simp
  show ?case
  proof (cases "n < 10")
    case True
    then show ?thesis using d [of n] by (subst showNat.simps) simp
  next
    case False
    then show ?thesis using "1.IH" d [of "n mod 10"] by (subst showNat.simps) simp
  qed
qed

lemma toLowerCase_showNat: "toLowerCase (showNat n) = showNat n"
  unfolding toLowerCase_def using showNat_digits [of n] lowerChar_digit
  by (intro map_idI) blast

lemma toLowerCase_suffixed:
  "toLowerCase (suffixed b n) = toLowerCase b @ '' ('' @ showNat n @ '')''"
proof -
  have "toLowerCase (suffixed b n) =
        toLowerCase b @ toLowerCase '' ('' @ toLowerCase (showNat n) @ toLowerCase '')''"
    by (simp add: toLowerCase_def suffixed_def)
  moreover have "toLowerCase '' ('' = '' (''" "toLowerCase '')'' = '')''"
    by (simp_all add: toLowerCase_def lowerChar_def)
  ultimately show ?thesis by (simp add: toLowerCase_showNat)
qed

lemma suffixed_lower_inj: "inj (\<lambda>n. toLowerCase (suffixed b n))"
  by (rule injI) (simp add: toLowerCase_suffixed showNat_inj)

lemma taken_finite: "finite {k. toLowerCase (suffixed b k) \<in> set ex}"
proof -
  have "{k. toLowerCase (suffixed b k) \<in> set ex} = (\<lambda>n. toLowerCase (suffixed b n)) -` set ex"
    by auto
  then show ?thesis using suffixed_lower_inj [of b] by (simp add: finite_vimageI)
qed

function pickSuffix :: "string list \<Rightarrow> string \<Rightarrow> nat \<Rightarrow> nat" where
  "pickSuffix existingLower baseName n =
     (if toLowerCase (suffixed baseName n) \<in> set existingLower
      then pickSuffix existingLower baseName (n + 1) else n)"
  by pat_completeness auto
termination
proof (relation "measure (\<lambda>(ex, b, n). card {k. n \<le> k \<and> toLowerCase (suffixed b k) \<in> set ex})")
  show "wf (measure (\<lambda>(ex, b, n). card {k. n \<le> k \<and> toLowerCase (suffixed b k) \<in> set ex}))"
    by simp
next
  fix ex :: "string list" and b :: string and n :: nat
  assume h: "toLowerCase (suffixed b n) \<in> set ex"
  let ?A = "\<lambda>n. {k. n \<le> k \<and> toLowerCase (suffixed b k) \<in> set ex}"
  have fin: "finite (?A n)" using taken_finite [of b ex] by (rule rev_finite_subset) auto
  have "n \<in> ?A n" "n \<notin> ?A (n + 1)" "?A (n + 1) \<subseteq> ?A n" using h by auto
  then have "?A (n + 1) \<subset> ?A n" by blast
  with fin have "card (?A (n + 1)) < card (?A n)" by (rule psubset_card_mono)
  then show "((ex, b, n + 1), (ex, b, n)) \<in>
     measure (\<lambda>(ex, b, n). card {k. n \<le> k \<and> toLowerCase (suffixed b k) \<in> set ex})"
    by simp
qed

declare pickSuffix.simps [simp del]



lemma pickSuffix_taken:
  "toLowerCase (suffixed b n) \<in> set ex \<Longrightarrow> pickSuffix ex b n = pickSuffix ex b (Suc n)"
  by (subst pickSuffix.simps) simp

lemma pickSuffix_free:
  "toLowerCase (suffixed b n) \<notin> set ex \<Longrightarrow> pickSuffix ex b n = n"
  by (subst pickSuffix.simps) simp


text \<open>The name stored: \<open>baseName\<close>, or \<open>baseName (n)\<close> for the first free \<open>n\<close> from 2.\<close>

definition disambiguate :: "string list \<Rightarrow> string \<Rightarrow> string" where
  "disambiguate existingLower baseName =
     (if toLowerCase baseName \<in> set existingLower
      then suffixed baseName (pickSuffix existingLower baseName 2)
      else baseName)"

record project_input =
  in_name :: string
  in_color :: "string option"
  in_icon :: "string option"

definition createProject :: "string \<Rightarrow> string \<Rightarrow> project_input \<Rightarrow> db \<Rightarrow> (error + Project) \<times> db" where
  "createProject newId createdAt input d =
     (let sortOrder = max_plus_one (map p_sort_order (projects (tables d)));
          baseName = trim (in_name input)
      in if baseName = [] then (Inl (Thrown ''Project name required''), d)
         else
           let existingLower = map (\<lambda>r. toLowerCase (p_name r)) (projects (tables d));
               name = disambiguate existingLower baseName
           in case execute (InsertProject
                     \<lparr>p_id = newId, p_name = name, p_color = in_color input,
                      p_icon = in_icon input, p_sort_order = sortOrder,
                      p_created_at = createdAt\<rparr>) d of
                (Inl e, d') \<Rightarrow> (Inl e, d')
              | (Inr _, d') \<Rightarrow>
                  (Inr \<lparr>pj_id = newId, pj_name = name, pj_color = in_color input,
                        pj_icon = in_icon input, pj_sortOrder = sortOrder,
                        pj_createdAt = createdAt\<rparr>, d'))"

definition ensureInboxProjectId :: "string \<Rightarrow> string \<Rightarrow> db \<Rightarrow> (error + string) \<times> db" where
  "ensureInboxProjectId newId now d =
     (case sort_key (\<lambda>p. (p_sort_order p, p_created_at p))
             (filter (\<lambda>p. p_icon p = Some ''inbox'') (projects (tables d))) of
        r # _ \<Rightarrow> (Inr (p_id r), d)
      | [] \<Rightarrow>
         (case filter (\<lambda>p. toLowerCase (p_name p) = ''inbox'') (projects (tables d)) of
            r # _ \<Rightarrow> (Inr (p_id r), d)
          | [] \<Rightarrow>
             (case execute (InsertProject
                       \<lparr>p_id = newId, p_name = ''Inbox'', p_color = Some ''#29f0ff'',
                        p_icon = Some ''inbox'', p_sort_order = 0, p_created_at = now\<rparr>) d of
                (Inl e, d') \<Rightarrow> (Inl e, d')
              | (Inr _, d') \<Rightarrow> (Inr newId, d'))))"

text \<open>The \<open>catch\<close> handler of the transactional operations: \<open>ROLLBACK\<close>, then rethrow.\<close>

definition rollback_rethrow :: "error \<Rightarrow> db \<Rightarrow> (error + unit) \<times> db" where
  "rollback_rethrow e d =
     (case execute Rollback d of
        (Inl e', d') \<Rightarrow> (Inl e', d')
      | (Inr _, d') \<Rightarrow> (Inl e, d'))"

text \<open>The transaction of \<open>deleteProjectMoveToInbox\<close>: \<open>BEGIN\<close>, the \<open>try\<close> block, the handler.\<close>

definition move_and_delete :: "string \<Rightarrow> string \<Rightarrow> string \<Rightarrow> db \<Rightarrow> (error + unit) \<times> db" where
  "move_and_delete inboxId now projectId d0 =
     (case execute Begin d0 of
        (Inl e, d1) \<Rightarrow> (Inl e, d1)
      | (Inr _, d1) \<Rightarrow>
         (case execute (UpdateTasksProject inboxId now projectId) d1 of
            (Inl e, d2) \<Rightarrow> rollback_rethrow e d2
          | (Inr _, d2) \<Rightarrow>
             (case execute (DeleteProject projectId) d2 of
                (Inl e, d3) \<Rightarrow> rollback_rethrow e d3
              | (Inr _, d3) \<Rightarrow>
                 (case execute Commit d3 of
                    (Inl e, d4) \<Rightarrow> rollback_rethrow e d4
                  | (Inr _, d4) \<Rightarrow> (Inr (), d4)))))"

definition deleteProjectMoveToInbox ::
    "string \<Rightarrow> string \<Rightarrow> string \<Rightarrow> string \<Rightarrow> db \<Rightarrow> (error + unit) \<times> db" where
  "deleteProjectMoveToInbox newId createdAt now projectId d =
     (case filter (\<lambda>p. p_id p = projectId) (projects (tables d)) of
        [] \<Rightarrow> (Inr (), d)
      | meta # _ \<Rightarrow>
          if p_icon meta = Some ''inbox'' \<or> toLowerCase (p_name meta) = ''inbox''
          then (Inl (Thrown ''Inbox cannot be deleted''), d)
          else
            (case ensureInboxProjectId newId createdAt d of
               (Inl e, d0) \<Rightarrow> (Inl e, d0)
             | (Inr inboxId, d0) \<Rightarrow> move_and_delete inboxId now projectId d0))"

section \<open>\<open>repo.ts\<close>: tasks\<close>

record list_params =
  view :: SmartView
  projectId :: "string option"
  search :: "string option"
  tagIds :: "string list option"

text \<open>
  The \<open>IN (SELECT task_id FROM task_tags WHERE tag_id IN (ids) GROUP BY task_id
  HAVING COUNT(DISTINCT tag_id) = ids.length)\<close> clause, for a task id.
\<close>

definition has_all_tags :: "string list \<Rightarrow> task_tag_row list \<Rightarrow> string \<Rightarrow> bool" where
  "has_all_tags ids tts taskId =
     (let grp = filter (\<lambda>tt. fst tt = taskId \<and> snd tt \<in> set ids) tts
      in grp \<noteq> [] \<and> length (remdups (map snd grp)) = length ids)"

text \<open>
  The clauses pushed on \<open>where\<close>, each with its bound values, one definition for each
  block of \<open>listTasks\<close>, in source order.
\<close>

definition view_clauses :: "string \<Rightarrow> SmartView \<Rightarrow> (task_row \<Rightarrow> bool) list" where
  "view_clauses today v =
     (if v = Completed then [\<lambda>t. t_completed t = 1] else []) @
     (if v = Today \<or> v = Upcoming then [\<lambda>t. t_completed t = 0] else []) @
     (if v = Today then [\<lambda>t. t_due_at t = Some today] else []) @
     (if v = Upcoming
      then [\<lambda>t. case t_due_at t of None \<Rightarrow> True | Some due \<Rightarrow> today < due] else [])"

definition project_clauses :: "string option \<Rightarrow> (task_row \<Rightarrow> bool) list" where
  "project_clauses p =
     (case p of
        None \<Rightarrow> []
      | Some pid \<Rightarrow> if pid = [] then [] else [\<lambda>t. t_project_id t = Some pid])"

definition search_clauses :: "string option \<Rightarrow> (task_row \<Rightarrow> bool) list" where
  "search_clauses sr =
     (case sr of
        None \<Rightarrow> []
      | Some txt \<Rightarrow>
          if txt \<noteq> [] \<and> length (trim txt) > 0
          then (let q = ''%'' @ trim txt @ ''%''
                in [\<lambda>t. sql_like q (t_title t) \<or> sql_like q (t_notes t)])
          else [])"

definition tag_clauses :: "string list option \<Rightarrow> store \<Rightarrow> (task_row \<Rightarrow> bool) list" where
  "tag_clauses tg s =
     (case tg of
        None \<Rightarrow> []
      | Some tids \<Rightarrow>
          if length tids > 0
          then (let ids = filter (\<lambda>x. x \<noteq> []) tids
                in if length ids > 0 then [\<lambda>t. has_all_tags ids (task_tags s) (t_id t)] else [])
          else [])"

definition where_clauses :: "string \<Rightarrow> list_params \<Rightarrow> store \<Rightarrow> (task_row \<Rightarrow> bool) list" where
  "where_clauses today params s =
     view_clauses today (view params) @ project_clauses (projectId params) @
     search_clauses (search params) @ tag_clauses (tagIds params) s"

text \<open>
  \<open>ORDER BY\<close>: the rows sorted by the key, rows with equal keys staying in table order.
  NULL sorts before every value, as \<open>None\<close> does in the order on \<open>option\<close>.
\<close>

definition project_scoped :: "list_params \<Rightarrow> bool" where
  "project_scoped params = (case projectId params of None \<Rightarrow> False | Some pid \<Rightarrow> pid \<noteq> [])"

definition order_rows :: "list_params \<Rightarrow> task_row list \<Rightarrow> task_row list" where
  "order_rows params rows =
     (if project_scoped params
      then sort_key (\<lambda>t. (t_sort_order t, t_created_at t)) rows
      else sort_key (\<lambda>t. (if t_due_at t = None then 1 else 0 :: nat, t_due_at t,
                            t_sort_order t, t_created_at t)) rows)"

definition listTasks :: "string \<Rightarrow> list_params \<Rightarrow> db \<Rightarrow> Task list" where
  "listTasks today params d =
     (let wh = where_clauses today params (tables d);
          rows = order_rows params (filter (\<lambda>t. list_all (\<lambda>c. c t) wh) (tasks (tables d)))
      in map mapTask rows)"

fun reorder_loop :: "string \<Rightarrow> string option \<Rightarrow> string list \<Rightarrow> int \<Rightarrow> db \<Rightarrow> (error + unit) \<times> db" where
  "reorder_loop updatedAt pid [] i d = (Inr (), d)"
| "reorder_loop updatedAt pid (x # xs) i d =
     (case execute (UpdateTaskSort i updatedAt x pid) d of
        (Inl e, d') \<Rightarrow> (Inl e, d')
      | (Inr _, d') \<Rightarrow> reorder_loop updatedAt pid xs (i + 1) d')"

definition reorderTasks :: "string \<Rightarrow> string option \<Rightarrow> string list \<Rightarrow> db \<Rightarrow> (error + unit) \<times> db" where
  "reorderTasks updatedAt pid orderedTaskIds d =
     (case execute Begin d of
        (Inl e, d1) \<Rightarrow> (Inl e, d1)
      | (Inr _, d1) \<Rightarrow>
         (case reorder_loop updatedAt pid orderedTaskIds 0 d1 of
            (Inl e, d2) \<Rightarrow> rollback_rethrow e d2
          | (Inr _, d2) \<Rightarrow>
             (case execute Commit d2 of
                (Inl e, d3) \<Rightarrow> rollback_rethrow e d3
              | (Inr _, d3) \<Rightarrow> (Inr (), d3))))"



section \<open>\<open>backup.ts\<close>\<close>








section \<open>Notions used to state the properties\<close>


text \<open>
  The 0-based index of an element in a list (of its last occurrence, should it occur more
  than once), and the row \<open>reorderTasks\<close> leaves for a task.
\<close>

fun last_index_of :: "'a list \<Rightarrow> 'a \<Rightarrow> nat" where
  "last_index_of [] x = 0"
| "last_index_of (y # ys) x = (if x \<in> set ys then Suc (last_index_of ys x) else 0)"

definition reordered :: "string \<Rightarrow> string option \<Rightarrow> string list \<Rightarrow> task_row \<Rightarrow> task_row" where
  "reordered now pid ids t =
     (if t_project_id t = pid \<and> t_id t \<in> set ids
      then t\<lparr>t_sort_order := int (last_index_of ids (t_id t)), t_updated_at := now\<rparr> else t)"

text \<open>The updates of the loop, on the store.\<close>

fun apply_order :: "string \<Rightarrow> string option \<Rightarrow> string list \<Rightarrow> int \<Rightarrow> store \<Rightarrow> store" where
  "apply_order now pid [] i s = s"
| "apply_order now pid (x # xs) i s = apply_order now pid xs (i + 1) (update_task_sort i now x pid s)"

text \<open>The inbox test of \<open>deleteProjectMoveToInbox\<close>, and the row its UPDATE leaves for a task.\<close>

definition is_inbox :: "project_row \<Rightarrow> bool" where
  "is_inbox p = (p_icon p = Some ''inbox'' \<or> toLowerCase (p_name p) = ''inbox'')"

definition moved_to :: "string \<Rightarrow> string \<Rightarrow> string \<Rightarrow> task_row \<Rightarrow> task_row" where
  "moved_to inboxId now pid t =
     (if t_project_id t = Some pid
      then t\<lparr>t_project_id := Some inboxId, t_updated_at := now\<rparr> else t)"




section \<open>A small store for the examples\<close>

definition mk_task :: "string \<Rightarrow> string option \<Rightarrow> string \<Rightarrow> int \<Rightarrow> string option \<Rightarrow> int \<Rightarrow> task_row" where
  "mk_task i p ttl c due so =
     \<lparr>t_id = i, t_project_id = p, t_title = ttl, t_notes = [], t_completed = c,
      t_priority = 0, t_due_at = due, t_sort_order = so,
      t_created_at = ''2024-05-01T08:00:00.000Z'', t_updated_at = ''2024-05-01T08:00:00.000Z''\<rparr>"

definition mk_project :: "string \<Rightarrow> string \<Rightarrow> string option \<Rightarrow> int \<Rightarrow> project_row" where
  "mk_project i n ic so =
     \<lparr>p_id = i, p_name = n, p_color = None, p_icon = ic, p_sort_order = so,
      p_created_at = ''2024-05-01T08:00:00.000Z''\<rparr>"

definition idle :: "store \<Rightarrow> db" where
  "idle s = \<lparr>tables = s, snapshot = None, foreign_keys = True, trip = None\<rparr>"

definition demo_store :: store where
  "demo_store =
     \<lparr>projects = [mk_project ''inbox-id'' ''Inbox'' (Some ''inbox'') 0,
                  mk_project ''work-id'' ''Work'' (Some ''spark'') 1],
      tasks = [mk_task ''t1'' (Some ''work-id'') ''write report'' 0 None 0,
               mk_task ''t2'' (Some ''work-id'') ''file taxes'' 0 (Some ''2024-05-11'') 1,
               mk_task ''t3'' (Some ''work-id'') ''call bank'' 0 (Some ''2024-05-10'') 2,
               mk_task ''t4'' (Some ''inbox-id'') ''old chore'' 0 (Some ''2024-05-09'') 0,
               mk_task ''t5'' (Some ''inbox-id'') ''done thing'' 1 None 1],
      tags = [\<lparr>g_id = ''g-work'', g_name = ''work''\<rparr>, \<lparr>g_id = ''g-urgent'', g_name = ''urgent''\<rparr>],
      task_tags = [(''t1'', ''g-work''), (''t2'', ''g-work''), (''t2'', ''g-urgent'')]\<rparr>"

definition named_inbox_store :: store where
  "named_inbox_store =
     \<lparr>projects = [mk_project ''p9'' ''INBOX'' None 3], tasks = [], tags = [], task_tags = []\<rparr>"

definition scoped_params :: "SmartView \<Rightarrow> string \<Rightarrow> list_params" where
  "scoped_params v pid = \<lparr>view = v, projectId = Some pid, search = None, tagIds = None\<rparr>"

definition smart_params :: "SmartView \<Rightarrow> list_params" where
  "smart_params v = \<lparr>view = v, projectId = None, search = None, tagIds = None\<rparr>"



definition home_input :: project_input where
  "home_input = \<lparr>in_name = ''Home'', in_color = Some ''#5cffb2'', in_icon = Some ''spark''\<rparr>"

definition home_again_input :: project_input where
  "home_again_input = \<lparr>in_name = '' home '', in_color = None, in_icon = None\<rparr>"

definition reorder_demo :: db where
  "reorder_demo = snd (reorderTasks ''2024-05-10T10:00:00.000Z'' (Some ''work-id'')
     [''t3'', ''t1'', ''t2''] (idle demo_store))"



section \<open>Properties\<close>

subsection \<open>Executing statements\<close>

lemma tick_idle: "trip d = None \<Longrightarrow> tick d = d"
  by (cases d) (simp add: tick_def)

lemma execute_idle:
  "trip d = None \<Longrightarrow>
   execute q d = (case exec_stmt q d of Inl e \<Rightarrow> (Inl e, d) | Inr d2 \<Rightarrow> (Inr (), d2))"
  by (simp add: execute_def tick_idle split: sum.splits)




subsection \<open>Transactions under an injected fault\<close>

lemma tick_fields [simp]:
  "tables (tick d) = tables d" "snapshot (tick d) = snapshot d"
  "foreign_keys (tick d) = foreign_keys d"
  by (simp_all add: tick_def)

lemma trip_tick_None: "trip d = None \<Longrightarrow> trip (tick d) = None"
  by (simp add: tick_def)

text \<open>A statement that cannot fail either runs or is hit by the injected fault.\<close>

lemma execute_total_stmt:
  assumes "exec_stmt q (tick d) = Inr d2"
  shows "execute q d = (Inr (), d2) \<and> trip d \<noteq> Some 0 \<or>
         execute q d = (Inl Fault, d\<lparr>trip := None\<rparr>) \<and> trip d = Some 0"
  using assms by (auto simp: execute_def split: option.splits nat.splits)

lemma rollback_after_fault:
  assumes "trip d = None" and "snapshot d = Some s"
  shows "rollback_rethrow e d = (Inl e, d\<lparr>tables := s, snapshot := None\<rparr>)"
  using assms by (simp add: rollback_rethrow_def execute_idle)

lemma execute_cases:
  "execute q d = (Inl Fault, d\<lparr>trip := None\<rparr>) \<and> trip d = Some 0 \<or>
   trip d \<noteq> Some 0 \<and> (\<exists>e. exec_stmt q (tick d) = Inl e \<and> execute q d = (Inl e, tick d)) \<or>
   trip d \<noteq> Some 0 \<and> (\<exists>d2. exec_stmt q (tick d) = Inr d2 \<and> execute q d = (Inr (), d2))"
  by (auto simp: execute_def split: option.splits nat.splits sum.splits)

lemma trip_tick_some: "trip (tick d) \<noteq> None \<Longrightarrow> trip d \<noteq> None"
  by (simp add: tick_def)


subsection \<open>Deleting a project\<close>

lemma filter_key_single:
  "distinct (map f xs) \<Longrightarrow> x \<in> set xs \<Longrightarrow> filter (\<lambda>y. f y = f x) xs = [x]"
proof (induction xs)
  case Nil
  then show ?case by simp
next
  case (Cons a xs)
  show ?case
  proof (cases "a = x")
    case True
    with Cons.prems have "f x \<notin> f ` set xs" by simp
    then have "\<forall>y \<in> set xs. f y \<noteq> f x" by (metis imageI)
    then have "filter (\<lambda>y. f y = f x) xs = []" by (simp add: filter_empty_conv)
    with True show ?thesis by simp
  next
    case False
    with Cons.prems have "x \<in> set xs" "f a \<noteq> f x" by auto
    with Cons show ?thesis by simp
  qed
qed

text \<open>
  C10. For a project id that no row of \<open>projects\<close> carries,
  \<open>deleteProjectMoveToInbox\<close> returns without an error and leaves the connection, and so
  the whole store, as it was: no inbox project is created and no task is touched.
\<close>

theorem delete_absent_project_noop:
  "pid \<notin> project_ids (tables d) \<Longrightarrow>
   deleteProjectMoveToInbox newId createdAt now pid d = (Inr (), d)"
proof -
  assume "pid \<notin> project_ids (tables d)"
  then have "filter (\<lambda>p. p_id p = pid) (projects (tables d)) = []"
    by (auto simp: project_ids_def filter_empty_conv)
  then show ?thesis by (simp add: deleteProjectMoveToInbox_def)
qed

theorem delete_absent_project_noop_witness:
  "''ghost'' \<notin> project_ids (tables (idle demo_store)) \<and>
   deleteProjectMoveToInbox ''n1'' ''c'' ''u'' ''ghost'' (idle demo_store) = (Inr (), idle demo_store)"
proof -
  have h: "''ghost'' \<notin> project_ids (tables (idle demo_store))"
    by (simp add: project_ids_def idle_def demo_store_def mk_project_def)
  from delete_absent_project_noop [OF h] h show ?thesis by simp
qed

text \<open>
  C4. Applied to the id of a project whose icon is \<open>inbox\<close> or whose name is
  \<open>inbox\<close> up to case, \<open>deleteProjectMoveToInbox\<close> throws "Inbox cannot be deleted"
  and leaves the store unchanged. Ids are a primary key, so the ids of \<open>projects\<close> are
  distinct.
\<close>

theorem delete_inbox_protected:
  assumes "distinct (map p_id (projects (tables d)))"
    and "m \<in> set (projects (tables d))"
    and "p_icon m = Some ''inbox'' \<or> toLowerCase (p_name m) = ''inbox''"
  shows "deleteProjectMoveToInbox newId createdAt now (p_id m) d =
           (Inl (Thrown ''Inbox cannot be deleted''), d)"
proof -
  from assms(1,2) have "filter (\<lambda>p. p_id p = p_id m) (projects (tables d)) = [m]"
    by (rule filter_key_single)
  with assms(3) show ?thesis by (simp add: deleteProjectMoveToInbox_def)
qed

theorem delete_inbox_protected_witness:
  "deleteProjectMoveToInbox ''n1'' ''c'' ''u'' ''inbox-id'' (idle demo_store) =
     (Inl (Thrown ''Inbox cannot be deleted''), idle demo_store) \<and>
   deleteProjectMoveToInbox ''n1'' ''c'' ''u'' ''p9'' (idle named_inbox_store) =
     (Inl (Thrown ''Inbox cannot be deleted''), idle named_inbox_store)"
proof -
  let ?m = "mk_project ''inbox-id'' ''Inbox'' (Some ''inbox'') 0"
  let ?n = "mk_project ''p9'' ''INBOX'' None 3"
  have a: "distinct (map p_id (projects (tables (idle demo_store))))"
    "?m \<in> set (projects (tables (idle demo_store)))"
    "p_icon ?m = Some ''inbox'' \<or> toLowerCase (p_name ?m) = ''inbox''"
    by (simp_all add: idle_def demo_store_def mk_project_def)
  have b: "distinct (map p_id (projects (tables (idle named_inbox_store))))"
    "?n \<in> set (projects (tables (idle named_inbox_store)))"
    "p_icon ?n = Some ''inbox'' \<or> toLowerCase (p_name ?n) = ''inbox''"
    by (simp_all add: idle_def named_inbox_store_def mk_project_def toLowerCase_def lowerChar_def)
  from delete_inbox_protected [OF a, of "''n1''" "''c''" "''u''"]
       delete_inbox_protected [OF b, of "''n1''" "''c''" "''u''"]
  show ?thesis by (simp add: mk_project_def)
qed

subsection \<open>Deleting a project that has tasks\<close>

text \<open>What \<open>ensureInboxProjectId\<close> can do to the connection.\<close>

lemma ensureInbox_cases:
  "(\<exists>r \<in> set (projects (tables d)). is_inbox r \<and>
       ensureInboxProjectId newId createdAt d = (Inr (p_id r), d)) \<or>
   (\<exists>r. is_inbox r \<and> p_id r = newId \<and> newId \<notin> project_ids (tables d) \<and>
       ensureInboxProjectId newId createdAt d =
         (Inr newId, (tick d)\<lparr>tables := (tables d)\<lparr>projects := projects (tables d) @ [r]\<rparr>\<rparr>)) \<or>
   (\<exists>e d0. ensureInboxProjectId newId createdAt d = (Inl e, d0) \<and> tables d0 = tables d \<and>
       (trip d \<noteq> None \<or> newId \<in> project_ids (tables d)))"
proof -
  let ?byIcon = "sort_key (\<lambda>p. (p_sort_order p, p_created_at p))
             (filter (\<lambda>p. p_icon p = Some ''inbox'') (projects (tables d)))"
  let ?byName = "filter (\<lambda>p. toLowerCase (p_name p) = ''inbox'') (projects (tables d))"
  let ?row = "\<lparr>p_id = newId, p_name = ''Inbox'', p_color = Some ''#29f0ff'',
                p_icon = Some ''inbox'', p_sort_order = 0, p_created_at = createdAt\<rparr>"
  show ?thesis
  proof (cases ?byIcon)
    case (Cons r rs)
    then have "r \<in> set ?byIcon" by simp
    then have "r \<in> set (projects (tables d))" "is_inbox r" by (auto simp: is_inbox_def)
    moreover have "ensureInboxProjectId newId createdAt d = (Inr (p_id r), d)"
      using Cons by (simp add: ensureInboxProjectId_def)
    ultimately show ?thesis by blast
  next
    case icon: Nil
    show ?thesis
    proof (cases ?byName)
      case (Cons r rs)
      then have "r \<in> set ?byName" by simp
      then have "r \<in> set (projects (tables d))" "is_inbox r" by (auto simp: is_inbox_def)
      moreover have "ensureInboxProjectId newId createdAt d = (Inr (p_id r), d)"
        using icon Cons by (simp add: ensureInboxProjectId_def)
      ultimately show ?thesis by blast
    next
      case name: Nil
      have e: "ensureInboxProjectId newId createdAt d =
          (case execute (InsertProject ?row) d of
             (Inl e, d') \<Rightarrow> (Inl e, d') | (Inr _, d') \<Rightarrow> (Inr newId, d'))"
        using icon name by (simp add: ensureInboxProjectId_def)
      have inb: "is_inbox ?row" "p_id ?row = newId" by (simp_all add: is_inbox_def)
      from execute_cases [of "InsertProject ?row" d] show ?thesis
      proof (elim disjE conjE exE)
        assume "execute (InsertProject ?row) d = (Inl Fault, d\<lparr>trip := None\<rparr>)" "trip d = Some 0"
        with e show ?thesis by simp
      next
        fix er assume "trip d \<noteq> Some 0" "exec_stmt (InsertProject ?row) (tick d) = Inl er"
          "execute (InsertProject ?row) d = (Inl er, tick d)"
        moreover from this have "newId \<in> project_ids (tables d)"
          by (auto simp: on_tables_def insert_project_def split: if_splits)
        ultimately show ?thesis using e by simp
      next
        fix d2 assume "trip d \<noteq> Some 0" and x: "exec_stmt (InsertProject ?row) (tick d) = Inr d2"
          and y: "execute (InsertProject ?row) d = (Inr (), d2)"
        from x have "newId \<notin> project_ids (tables d)"
          and "d2 = (tick d)\<lparr>tables := (tables d)\<lparr>projects := projects (tables d) @ [?row]\<rparr>\<rparr>"
          by (auto simp: on_tables_def insert_project_def split: if_splits)
        with e y inb show ?thesis by auto
      qed
    qed
  qed
qed

lemma moved_to_fields [simp]: "t_id (moved_to inboxId now pid t) = t_id t"
  by (simp add: moved_to_def)

lemma move_and_delete_cases:
  assumes "snapshot d0 = None" and "inboxId \<in> project_ids (tables d0)" and "inboxId \<noteq> pid"
  shows "(\<exists>d'. move_and_delete inboxId now pid d0 = (Inr (), d') \<and>
            tables d' = (tables d0)\<lparr>projects := filter (\<lambda>p. p_id p \<noteq> pid) (projects (tables d0)),
                                    tasks := map (moved_to inboxId now pid) (tasks (tables d0))\<rparr> \<and>
            snapshot d' = None) \<or>
         (\<exists>d'. move_and_delete inboxId now pid d0 = (Inl Fault, d') \<and> tables d' = tables d0 \<and>
            trip d0 \<noteq> None)"
proof -
  let ?s0 = "tables d0"
  let ?d1 = "(tick d0)\<lparr>snapshot := Some ?s0\<rparr>"
  let ?s1 = "?s0\<lparr>tasks := map (moved_to inboxId now pid) (tasks ?s0)\<rparr>"
  let ?d2 = "(tick ?d1)\<lparr>tables := ?s1\<rparr>"
  let ?s2 = "?s0\<lparr>projects := filter (\<lambda>p. p_id p \<noteq> pid) (projects ?s0),
                   tasks := map (moved_to inboxId now pid) (tasks ?s0)\<rparr>"
  let ?d3 = "(tick ?d2)\<lparr>tables := ?s2\<rparr>"
  let ?d4 = "(tick ?d3)\<lparr>snapshot := None\<rparr>"
  have e1: "exec_stmt Begin (tick d0) = Inr ?d1" using assms(1) by simp
  have e2: "exec_stmt (UpdateTasksProject inboxId now pid) (tick ?d1) = Inr ?d2"
    using assms(2)
    by (simp add: on_tables_def update_tasks_project_def moved_to_def project_ids_def)
  have nul: "(\<lambda>t. if t_project_id t = Some pid then t\<lparr>t_project_id := None\<rparr> else t) \<circ>
               moved_to inboxId now pid = moved_to inboxId now pid"
    using assms(3) by (auto simp: moved_to_def fun_eq_iff)
  have "delete_project fk pid ?s1 = ?s2" for fk
    by (simp add: delete_project_def nul)
  then have e3: "exec_stmt (DeleteProject pid) (tick ?d2) = Inr ?d3"
    by (simp add: on_tables_def)
  have e4: "exec_stmt Commit (tick ?d3) = Inr ?d4" by simp
  have rb: "rollback_rethrow Fault (x\<lparr>trip := None\<rparr>) =
      (Inl Fault, x\<lparr>trip := None, tables := ?s0, snapshot := None\<rparr>)"
    if "snapshot x = Some ?s0" for x
    using that by (simp add: rollback_after_fault)
  have t1: "trip ?d1 \<noteq> None \<Longrightarrow> trip d0 \<noteq> None" by (simp add: tick_def)
  have t2: "trip ?d2 \<noteq> None \<Longrightarrow> trip d0 \<noteq> None" by (simp add: tick_def)
  have t3: "trip ?d3 \<noteq> None \<Longrightarrow> trip d0 \<noteq> None" by (simp add: tick_def)
  from execute_total_stmt [OF e1] show ?thesis
  proof (elim disjE conjE)
    assume "execute Begin d0 = (Inl Fault, d0\<lparr>trip := None\<rparr>)" "trip d0 = Some 0"
    then show ?thesis by (simp add: move_and_delete_def)
  next
    assume b: "execute Begin d0 = (Inr (), ?d1)"
    from execute_total_stmt [OF e2] show ?thesis
    proof (elim disjE conjE)
      assume "execute (UpdateTasksProject inboxId now pid) ?d1 = (Inl Fault, ?d1\<lparr>trip := None\<rparr>)"
        "trip ?d1 = Some 0"
      with b t1 rb [of ?d1] show ?thesis by (simp add: move_and_delete_def)
    next
      assume u: "execute (UpdateTasksProject inboxId now pid) ?d1 = (Inr (), ?d2)"
      from execute_total_stmt [OF e3] show ?thesis
      proof (elim disjE conjE)
        assume "execute (DeleteProject pid) ?d2 = (Inl Fault, ?d2\<lparr>trip := None\<rparr>)"
          "trip ?d2 = Some 0"
        with b u t2 rb [of ?d2] show ?thesis by (simp add: move_and_delete_def)
      next
        assume dl: "execute (DeleteProject pid) ?d2 = (Inr (), ?d3)"
        from execute_total_stmt [OF e4] show ?thesis
        proof (elim disjE conjE)
          assume "execute Commit ?d3 = (Inl Fault, ?d3\<lparr>trip := None\<rparr>)" "trip ?d3 = Some 0"
          with b u dl t3 rb [of ?d3] show ?thesis by (simp add: move_and_delete_def)
        next
          assume "execute Commit ?d3 = (Inr (), ?d4)"
          with b u dl show ?thesis by (simp add: move_and_delete_def)
        qed
      qed
    qed
  qed
qed


lemma same_id_same_row:
  "distinct (map f xs) \<Longrightarrow> x \<in> set xs \<Longrightarrow> y \<in> set xs \<Longrightarrow> f x = f y \<Longrightarrow> x = y"
  by (meson distinct_map inj_onD)

text \<open>
  C3. For a project that is in the store and is not the inbox (ids being a primary key,
  and the connection outside a transaction), \<open>deleteProjectMoveToInbox\<close> either commits:
  then every task that had this \<open>project_id\<close> has the id of an inbox project and the new
  \<open>updated_at\<close>, every other task is as before, the project's row is gone and the inbox
  project's row is there; or it throws: then no task has changed and the project's row
  is still there. It throws only under an injected fault, or when the id drawn for a
  new inbox project is already taken.
\<close>

theorem deleteProject_moves_tasks_atomically:
  assumes "distinct (map p_id (projects (tables d)))" and "m \<in> set (projects (tables d))"
    and "\<not> is_inbox m" and "snapshot d = None"
  shows "(\<exists>d' inbox. deleteProjectMoveToInbox newId createdAt now (p_id m) d = (Inr (), d') \<and>
            tasks (tables d') = map (moved_to (p_id inbox) now (p_id m)) (tasks (tables d)) \<and>
            p_id m \<notin> project_ids (tables d') \<and>
            set (projects (tables d)) - {m} \<subseteq> set (projects (tables d')) \<and>
            inbox \<in> set (projects (tables d')) \<and> is_inbox inbox \<and> snapshot d' = None) \<or>
         (\<exists>e d'. deleteProjectMoveToInbox newId createdAt now (p_id m) d = (Inl e, d') \<and>
            tasks (tables d') = tasks (tables d) \<and> m \<in> set (projects (tables d')) \<and>
            (trip d \<noteq> None \<or> newId \<in> project_ids (tables d)))"
proof -
  let ?pid = "p_id m"
  have meta: "filter (\<lambda>p. p_id p = ?pid) (projects (tables d)) = [m]"
    using assms(1,2) by (rule filter_key_single)
  have del: "deleteProjectMoveToInbox newId createdAt now ?pid d =
      (case ensureInboxProjectId newId createdAt d of
         (Inl e, d0) \<Rightarrow> (Inl e, d0)
       | (Inr inboxId, d0) \<Rightarrow> move_and_delete inboxId now ?pid d0)"
    using assms(3) by (simp add: deleteProjectMoveToInbox_def meta is_inbox_def)
  from ensureInbox_cases [of d newId createdAt]
  consider (found) r where "r \<in> set (projects (tables d))" "is_inbox r"
      "ensureInboxProjectId newId createdAt d = (Inr (p_id r), d)"
    | (created) r where "is_inbox r" "p_id r = newId" "newId \<notin> project_ids (tables d)"
      "ensureInboxProjectId newId createdAt d =
         (Inr newId, (tick d)\<lparr>tables := (tables d)\<lparr>projects := projects (tables d) @ [r]\<rparr>\<rparr>)"
    | (failed) e d0 where "ensureInboxProjectId newId createdAt d = (Inl e, d0)"
      "tables d0 = tables d" "trip d \<noteq> None \<or> newId \<in> project_ids (tables d)"
    by blast
  then show ?thesis
  proof cases
    case (found r)
    then have r: "r \<in> set (projects (tables d))" "is_inbox r"
      and e: "ensureInboxProjectId newId createdAt d = (Inr (p_id r), d)" by simp_all
    from r assms(3) have "r \<noteq> m" by auto
    with assms(1,2) r(1) have ne: "p_id r \<noteq> ?pid" by (metis same_id_same_row)
    from r(1) have inb: "p_id r \<in> project_ids (tables d)" by (simp add: project_ids_def)
    from move_and_delete_cases [OF assms(4) inb ne, of now] show ?thesis
    proof (elim disjE exE conjE)
      fix d' assume "move_and_delete (p_id r) now ?pid d = (Inr (), d')"
        and t: "tables d' = (tables d)\<lparr>projects := filter (\<lambda>p. p_id p \<noteq> ?pid) (projects (tables d)),
                                    tasks := map (moved_to (p_id r) now ?pid) (tasks (tables d))\<rparr>"
        and s: "snapshot d' = None"
      with del e have 1: "deleteProjectMoveToInbox newId createdAt now ?pid d = (Inr (), d')"
        by simp
      have 2: "tasks (tables d') = map (moved_to (p_id r) now ?pid) (tasks (tables d))"
        using t by simp
      have 3: "?pid \<notin> project_ids (tables d')" using t by (auto simp: project_ids_def)
      have 4: "set (projects (tables d)) - {m} \<subseteq> set (projects (tables d'))"
        using t assms(1,2) by (auto dest: same_id_same_row)
      have 5: "r \<in> set (projects (tables d'))" using t r(1) ne by simp
      from 1 2 3 4 5 r(2) s show ?thesis by blast
    next
      fix d' assume "move_and_delete (p_id r) now ?pid d = (Inl Fault, d')"
        "tables d' = tables d" "trip d \<noteq> None"
      with del e assms(2) show ?thesis by simp
    qed
  next
    case (created r)
    then have r: "is_inbox r" "p_id r = newId" and fresh: "newId \<notin> project_ids (tables d)"
      and e: "ensureInboxProjectId newId createdAt d =
         (Inr newId, (tick d)\<lparr>tables := (tables d)\<lparr>projects := projects (tables d) @ [r]\<rparr>\<rparr>)"
      by simp_all
    let ?d0 = "(tick d)\<lparr>tables := (tables d)\<lparr>projects := projects (tables d) @ [r]\<rparr>\<rparr>"
    have s0: "snapshot ?d0 = None" using assms(4) by simp
    have inb: "newId \<in> project_ids (tables ?d0)" using r(2) by (simp add: project_ids_def)
    from fresh assms(2) have ne: "newId \<noteq> ?pid" by (auto simp: project_ids_def)
    from move_and_delete_cases [OF s0 inb ne, of now] show ?thesis
    proof (elim disjE exE conjE)
      fix d' assume "move_and_delete newId now ?pid ?d0 = (Inr (), d')"
        and t: "tables d' = (tables ?d0)\<lparr>projects := filter (\<lambda>p. p_id p \<noteq> ?pid) (projects (tables ?d0)),
                                    tasks := map (moved_to newId now ?pid) (tasks (tables ?d0))\<rparr>"
        and s: "snapshot d' = None"
      with del e have 1: "deleteProjectMoveToInbox newId createdAt now ?pid d = (Inr (), d')"
        by simp
      have 2: "tasks (tables d') = map (moved_to (p_id r) now ?pid) (tasks (tables d))"
        using t r(2) by simp
      have 3: "?pid \<notin> project_ids (tables d')" using t by (auto simp: project_ids_def)
      have 4: "set (projects (tables d)) - {m} \<subseteq> set (projects (tables d'))"
        using t assms(1,2) by (auto dest: same_id_same_row)
      have 5: "r \<in> set (projects (tables d'))" using t r(2) ne by simp
      from 1 2 3 4 5 r(1) s show ?thesis by blast
    next
      fix d' assume "move_and_delete newId now ?pid ?d0 = (Inl Fault, d')"
        "tables d' = tables ?d0" "trip ?d0 \<noteq> None"
      moreover from this have "trip d \<noteq> None" by (simp add: tick_def)
      ultimately show ?thesis using del e assms(2) by simp
    qed
  next
    case (failed e d0)
    with del assms(2) show ?thesis by simp
  qed
qed


theorem deleteProject_moves_tasks_atomically_witness:
  "(\<exists>d' inbox.
      deleteProjectMoveToInbox ''n1'' ''c'' ''u'' ''work-id'' (idle demo_store) = (Inr (), d') \<and>
      tasks (tables d') = map (moved_to (p_id inbox) ''u'' ''work-id'') (tasks demo_store) \<and>
      ''work-id'' \<notin> project_ids (tables d') \<and> is_inbox inbox) \<and>
   map t_project_id (tasks (tables (snd
     (deleteProjectMoveToInbox ''n1'' ''c'' ''u'' ''work-id'' (idle demo_store))))) =
     [Some ''inbox-id'', Some ''inbox-id'', Some ''inbox-id'', Some ''inbox-id'', Some ''inbox-id''] \<and>
   deleteProjectMoveToInbox ''n1'' ''c'' ''u'' ''work-id'' (idle demo_store\<lparr>trip := Some 2\<rparr>) =
     (Inl Fault, idle demo_store)"
proof -
  let ?m = "mk_project ''work-id'' ''Work'' (Some ''spark'') 1"
  have a: "distinct (map p_id (projects (tables (idle demo_store))))"
    "?m \<in> set (projects (tables (idle demo_store)))" "\<not> is_inbox ?m"
    "snapshot (idle demo_store) = None"
    by (simp_all add: idle_def demo_store_def mk_project_def is_inbox_def toLowerCase_def
        lowerChar_def)
  have b: "trip (idle demo_store) = None" "''n1'' \<notin> project_ids (tables (idle demo_store))"
    by (simp_all add: idle_def demo_store_def mk_project_def project_ids_def)
  have c: "p_id ?m = ''work-id''" "tables (idle demo_store) = demo_store"
    by (simp_all add: mk_project_def idle_def)
  from deleteProject_moves_tasks_atomically [OF a, of "''n1''" "''c''" "''u''"] b
  have 1: "\<exists>d' inbox.
      deleteProjectMoveToInbox ''n1'' ''c'' ''u'' ''work-id'' (idle demo_store) = (Inr (), d') \<and>
      tasks (tables d') = map (moved_to (p_id inbox) ''u'' ''work-id'') (tasks demo_store) \<and>
      ''work-id'' \<notin> project_ids (tables d') \<and> is_inbox inbox"
    unfolding c by blast
  have 2: "map t_project_id (tasks (tables (snd
     (deleteProjectMoveToInbox ''n1'' ''c'' ''u'' ''work-id'' (idle demo_store))))) =
     [Some ''inbox-id'', Some ''inbox-id'', Some ''inbox-id'', Some ''inbox-id'', Some ''inbox-id'']"
    by (simp add: deleteProjectMoveToInbox_def ensureInboxProjectId_def move_and_delete_def
        execute_def tick_def on_tables_def update_tasks_project_def delete_project_def
        project_ids_def idle_def demo_store_def mk_project_def mk_task_def toLowerCase_def
        lowerChar_def)
  have 3: "deleteProjectMoveToInbox ''n1'' ''c'' ''u'' ''work-id'' (idle demo_store\<lparr>trip := Some 2\<rparr>) =
     (Inl Fault, idle demo_store)"
    by (simp add: deleteProjectMoveToInbox_def ensureInboxProjectId_def move_and_delete_def
        rollback_rethrow_def execute_def tick_def on_tables_def update_tasks_project_def
        delete_project_def project_ids_def idle_def demo_store_def mk_project_def mk_task_def
        toLowerCase_def lowerChar_def)
  from 1 2 3 show ?thesis by blast
qed


subsection \<open>Listing tasks\<close>

lemma listTasks_rows:
  "listTasks today params d =
     map mapTask (order_rows params
       (filter (\<lambda>t. list_all (\<lambda>c. c t) (view_clauses today (view params)) \<and>
                    list_all (\<lambda>c. c t) (project_clauses (projectId params)) \<and>
                    list_all (\<lambda>c. c t)
                      (search_clauses (search params) @ tag_clauses (tagIds params) (tables d)))
          (tasks (tables d))))"
  by (simp add: listTasks_def where_clauses_def)


lemma project_clauses_unscoped:
  "\<not> project_scoped params \<Longrightarrow> project_clauses (projectId params) = []"
  by (auto simp: project_scoped_def project_clauses_def split: option.splits)




text \<open>
  C7. In the view \<open>upcoming\<close> without a project scope the result is exactly the rows
  with \<open>completed = 0\<close> whose \<open>due_at\<close> is NULL or strictly greater than \<open>today\<close>
  (and that pass the search and tag filters of the call), in the smart-view order.
\<close>

theorem upcoming_view:
  assumes "view params = Upcoming" and "\<not> project_scoped params"
  shows "listTasks today params d =
     map mapTask
       (sort_key (\<lambda>t. (if t_due_at t = None then 1 else 0 :: nat, t_due_at t,
                        t_sort_order t, t_created_at t))
         (filter (\<lambda>t. t_completed t = 0 \<and>
                      (t_due_at t = None \<or> (\<exists>due. t_due_at t = Some due \<and> today < due)) \<and>
                      list_all (\<lambda>c. c t)
                        (search_clauses (search params) @ tag_clauses (tagIds params) (tables d)))
            (tasks (tables d))))"
proof -
  have v: "list_all (\<lambda>c. c t) (view_clauses today Upcoming) =
      (t_completed t = 0 \<and> (t_due_at t = None \<or> (\<exists>due. t_due_at t = Some due \<and> today < due)))"
    for t
    by (auto simp: view_clauses_def split: option.splits)
  show ?thesis
    using assms
    by (simp add: listTasks_rows project_clauses_unscoped order_rows_def v)
qed

theorem upcoming_view_witness:
  "map tk_id (listTasks ''2024-05-10'' (smart_params Upcoming) (idle demo_store)) = [''t2'', ''t1'']"
proof -
  have a: "view (smart_params Upcoming) = Upcoming" "\<not> project_scoped (smart_params Upcoming)"
    by (simp_all add: smart_params_def project_scoped_def)
  show ?thesis
    unfolding upcoming_view [OF a]
    by (simp add: idle_def demo_store_def mk_task_def smart_params_def search_clauses_def
        tag_clauses_def mapTask_def)
qed


subsection \<open>The tag filter\<close>








subsection \<open>Creating a task\<close>





subsection \<open>Creating a project\<close>









lemma createProject_example:
  "map p_name (projects (tables (snd (createProject ''id-b'' ''c2'' home_again_input
     (snd (createProject ''id-a'' ''c1'' home_input (idle demo_store))))))) =
   [''Inbox'', ''Work'', ''Home'', ''home (2)'']"
  by (simp add: createProject_def execute_def tick_def on_tables_def insert_project_def Let_def
      disambiguate_def pickSuffix_taken pickSuffix_free suffixed_def showNat.simps digitChar_def
      idle_def demo_store_def mk_project_def project_ids_def home_input_def
      home_again_input_def trim_def isSpace_def toLowerCase_def lowerChar_def)

subsection \<open>Reordering tasks\<close>

lemma last_index_of_nth: "distinct xs \<Longrightarrow> i < length xs \<Longrightarrow> last_index_of xs (xs ! i) = i"
proof (induction xs arbitrary: i)
  case Nil
  then show ?case by simp
next
  case (Cons a xs)
  then show ?case by (cases i) auto
qed

lemma nth_last_index_of: "x \<in> set xs \<Longrightarrow> xs ! last_index_of xs x = x"
  by (induction xs) auto

lemma last_index_of_less: "x \<in> set xs \<Longrightarrow> last_index_of xs x < length xs"
  by (induction xs) auto

lemma apply_order_tasks:
  "apply_order now pid ids i s =
     s\<lparr>tasks := map (\<lambda>t. if t_project_id t = pid \<and> t_id t \<in> set ids
                           then t\<lparr>t_sort_order := i + int (last_index_of ids (t_id t)),
                                  t_updated_at := now\<rparr>
                           else t) (tasks s)\<rparr>"
proof (induction ids arbitrary: i s)
  case Nil
  then show ?case by (simp add: map_idI)
next
  case (Cons x xs)
  have "map ((\<lambda>t. if t_project_id t = pid \<and> t_id t \<in> set xs
                   then t\<lparr>t_sort_order := i + 1 + int (last_index_of xs (t_id t)),
                            t_updated_at := now\<rparr>
                   else t) \<circ>
              (\<lambda>t. if t_id t = x \<and> t_project_id t = pid
                   then t\<lparr>t_sort_order := i, t_updated_at := now\<rparr> else t)) (tasks s) =
        map (\<lambda>t. if t_project_id t = pid \<and> (t_id t = x \<or> t_id t \<in> set xs)
                  then t\<lparr>t_sort_order := i + int (last_index_of (x # xs) (t_id t)),
                           t_updated_at := now\<rparr>
                  else t) (tasks s)"
    by (rule map_cong [OF refl]) auto
  then show ?case
    by (simp add: Cons.IH update_task_sort_def)
qed

lemma reorder_loop_cases:
  "snapshot d = Some s0 \<Longrightarrow>
   (\<exists>d'. reorder_loop now pid ids i d = (Inr (), d') \<and>
      tables d' = apply_order now pid ids i (tables d) \<and> snapshot d' = Some s0 \<and>
      (trip d = None \<longrightarrow> trip d' = None)) \<or>
   (\<exists>d'. reorder_loop now pid ids i d = (Inl Fault, d') \<and> trip d' = None \<and>
      snapshot d' = Some s0 \<and> trip d \<noteq> None)"
proof (induction ids arbitrary: i d)
  case Nil
  then show ?case by simp
next
  case (Cons x xs)
  let ?d2 = "(tick d)\<lparr>tables := update_task_sort i now x pid (tables d)\<rparr>"
  have e: "exec_stmt (UpdateTaskSort i now x pid) (tick d) = Inr ?d2"
    by (simp add: on_tables_def)
  from execute_total_stmt [OF e] show ?case
  proof
    assume a: "execute (UpdateTaskSort i now x pid) d = (Inr (), ?d2) \<and> trip d \<noteq> Some 0"
    have s: "snapshot ?d2 = Some s0" using Cons.prems by simp
    have t: "trip d = None \<longrightarrow> trip ?d2 = None" by (simp add: tick_def)
    have t': "trip ?d2 \<noteq> None \<longrightarrow> trip d \<noteq> None" by (simp add: tick_def)
    from Cons.IH [OF s, of "i + 1"] a t t' show ?thesis by auto
  next
    assume "execute (UpdateTaskSort i now x pid) d = (Inl Fault, d\<lparr>trip := None\<rparr>) \<and> trip d = Some 0"
    with Cons.prems show ?thesis by simp
  qed
qed


lemma last_index_of_image: "distinct xs \<Longrightarrow> last_index_of xs ` set xs = {0..<length xs}"
proof (intro equalityI subsetI)
  fix i assume "i \<in> last_index_of xs ` set xs"
  then show "i \<in> {0..<length xs}" by (auto simp: last_index_of_less)
next
  fix i assume d: "distinct xs" and "i \<in> {0..<length xs}"
  then have i: "i < length xs" by simp
  with d have "last_index_of xs (xs ! i) = i" by (rule last_index_of_nth)
  moreover from i have "xs ! i \<in> set xs" by simp
  ultimately show "i \<in> last_index_of xs ` set xs" by force
qed

lemma last_index_of_inj_on: "inj_on (last_index_of xs) (set xs)"
  by (rule inj_onI) (metis nth_last_index_of)

lemma reordered_fields [simp]:
  "t_id (reordered now pid ids t) = t_id t"
  "t_project_id (reordered now pid ids t) = t_project_id t"
  by (simp_all add: reordered_def)

lemma listing_follows_order:
  assumes p: "p \<noteq> []"
    and dt: "distinct (map t_id ts)"
    and ex: "t_id ` {t \<in> set ts. t_project_id t = Some p} = set ids"
    and di: "distinct ids"
    and d': "tasks (tables d') = map (reordered now (Some p) ids) ts"
  shows "map tk_id (listTasks today (scoped_params All p) d') = ids"
proof -
  let ?r = "reordered now (Some p) ids"
  let ?key = "\<lambda>t. (t_sort_order t, t_created_at t)"
  let ?rows = "filter (\<lambda>t. t_project_id t = Some p) ts"
  let ?L = "sort_key ?key (map ?r ?rows)"
  let ?g = "\<lambda>t. last_index_of ids (t_id t)"
  have lt: "listTasks today (scoped_params All p) d' =
      map mapTask (sort_key ?key (filter (\<lambda>t. t_project_id t = Some p) (tasks (tables d'))))"
    using p by (simp add: listTasks_def where_clauses_def view_clauses_def project_clauses_def
        search_clauses_def tag_clauses_def order_rows_def project_scoped_def scoped_params_def)
  have fr: "filter (\<lambda>t. t_project_id t = Some p) (map ?r ts) = map ?r ?rows"
    by (simp add: filter_map comp_def)
  have ids_L: "map tk_id (listTasks today (scoped_params All p) d') = map t_id ?L"
    by (simp add: lt d' fr mapTask_def comp_def)
  have set_rows: "t_id ` set ?rows = set ids" using ex by simp
  have set_L: "set ?L = ?r ` set ?rows" by simp
  have id_L: "t_id ` set ?L = set ids" using set_rows by (simp add: image_image)
  have so: "t_sort_order t = int (?g t)" if "t \<in> set ?L" for t
  proof -
    from that obtain u where u: "u \<in> set ?rows" "t = ?r u" by auto
    with set_rows have "t_id u \<in> set ids" by blast
    with u show ?thesis by (simp add: reordered_def)
  qed
  have "sorted (map ?key ?L)" by (rule sorted_sort_key)
  then have "sorted_wrt (\<lambda>x y. ?key x \<le> ?key y) ?L" by (simp only: sorted_map)
  then have "sorted_wrt (\<lambda>x y. ?g x \<le> ?g y) ?L"
  proof (rule sorted_wrt_mono_rel [rotated])
    fix x y assume "x \<in> set ?L" "y \<in> set ?L" "?key x \<le> ?key y"
    then have "t_sort_order x \<le> t_sort_order y" "t_sort_order x = int (?g x)"
      "t_sort_order y = int (?g y)"
      by (auto simp: less_eq_prod_def so)
    then show "?g x \<le> ?g y" by simp
  qed
  then have sorted_g: "sorted (map ?g ?L)" by (simp only: sorted_map)
  have "distinct (map t_id ?rows)" using dt by (rule distinct_map_filter)
  then have "distinct (map t_id (map ?r ?rows))" by (simp add: comp_def)
  then have "distinct (map ?r ?rows)" "inj_on t_id (set (map ?r ?rows))"
    by (simp_all only: distinct_map)
  then have dist_ids: "distinct (map t_id ?L)" by (simp add: distinct_map)
  have "distinct (map (last_index_of ids) (map t_id ?L))"
    unfolding distinct_map [of "last_index_of ids"]
    using dist_ids id_L last_index_of_inj_on [of ids] by (simp add: image_image)
  then have dist_g: "distinct (map ?g ?L)" by (simp add: comp_def)
  have "set (map ?g ?L) = last_index_of ids ` (t_id ` set ?L)" by (simp add: image_image)
  then have set_g: "set (map ?g ?L) = {0..<length ids}"
    using id_L di by (simp add: last_index_of_image)
  have "map ?g ?L = [0..<length ids]"
    using sorted_g dist_g set_g by (intro sorted_distinct_set_unique) simp_all
  then have "map (\<lambda>i. ids ! i) (map ?g ?L) = ids" by (simp add: map_nth)
  moreover have "map (\<lambda>i. ids ! i) (map ?g ?L) = map t_id ?L"
  proof -
    have "ids ! ?g t = t_id t" if "t \<in> set ?L" for t
      using that id_L by (intro nth_last_index_of) blast
    then show ?thesis by (simp add: comp_def)
  qed
  ultimately show ?thesis using ids_L by simp
qed


lemma apply_order_reordered:
  "apply_order now pid ids 0 s = s\<lparr>tasks := map (reordered now pid ids) (tasks s)\<rparr>"
  by (simp add: apply_order_tasks reordered_def)

text \<open>
  C8. Started outside a transaction, \<open>reorderTasks\<close> either commits, and then every task
  that has one of the listed ids and whose \<open>project_id IS\<close> the given one (NULL matching
  NULL) has its 0-based index in the list as \<open>sort_order\<close> and the new \<open>updated_at\<close>,
  all other rows and tables being as before; or it was hit by the injected fault, and
  then the store is as before. After a commit, if the list has no id twice and the
  project's tasks are exactly the listed ones, \<open>listTasks\<close> scoped to the project (view
  \<open>all\<close>) returns them in the order of the list.
\<close>

theorem reorderTasks_transaction:
  assumes "snapshot d = None"
  shows "(\<exists>d'. reorderTasks now pid ids d = (Inr (), d') \<and>
            tables d' = (tables d)\<lparr>tasks := map (reordered now pid ids) (tasks (tables d))\<rparr> \<and>
            snapshot d' = None \<and>
            (\<forall>p. pid = Some p \<and> p \<noteq> [] \<and> distinct ids \<and>
                 distinct (map t_id (tasks (tables d))) \<and>
                 t_id ` {t \<in> set (tasks (tables d)). t_project_id t = Some p} = set ids \<longrightarrow>
                 map tk_id (listTasks today (scoped_params All p) d') = ids)) \<or>
         (\<exists>d'. reorderTasks now pid ids d = (Inl Fault, d') \<and> tables d' = tables d \<and>
            trip d \<noteq> None)"
proof -
  let ?b = "(tick d)\<lparr>snapshot := Some (tables d)\<rparr>"
  have eb: "exec_stmt Begin (tick d) = Inr ?b" using assms(1) by simp
  from execute_total_stmt [OF eb] show ?thesis
  proof
    assume "execute Begin d = (Inl Fault, d\<lparr>trip := None\<rparr>) \<and> trip d = Some 0"
    then show ?thesis by (simp add: reorderTasks_def)
  next
    assume b: "execute Begin d = (Inr (), ?b) \<and> trip d \<noteq> Some 0"
    have sb: "snapshot ?b = Some (tables d)" by simp
    have tb: "trip ?b \<noteq> None \<longrightarrow> trip d \<noteq> None" by (simp add: tick_def)
    from reorder_loop_cases [OF sb, of now pid ids 0] show ?thesis
    proof (elim disjE exE conjE)
      fix d2 assume l: "reorder_loop now pid ids 0 ?b = (Inl Fault, d2)"
        and t2: "trip d2 = None" and s2: "snapshot d2 = Some (tables d)" and "trip ?b \<noteq> None"
      with tb have "trip d \<noteq> None" by blast
      with b l rollback_after_fault [OF t2 s2, of Fault] show ?thesis
        by (simp add: reorderTasks_def)
    next
      fix d2 assume l: "reorder_loop now pid ids 0 ?b = (Inr (), d2)"
        and tab: "tables d2 = apply_order now pid ids 0 (tables ?b)"
        and s2: "snapshot d2 = Some (tables d)"
        and t2: "trip ?b = None \<longrightarrow> trip d2 = None"
      let ?c = "(tick d2)\<lparr>snapshot := None\<rparr>"
      have ec: "exec_stmt Commit (tick d2) = Inr ?c" using s2 by simp
      from execute_total_stmt [OF ec] show ?thesis
      proof
        assume c: "execute Commit d2 = (Inl Fault, d2\<lparr>trip := None\<rparr>) \<and> trip d2 = Some 0"
        then have "trip ?b \<noteq> None" using t2 by auto
        with tb have nd: "trip d \<noteq> None" by blast
        have "rollback_rethrow Fault (d2\<lparr>trip := None\<rparr>) =
              (Inl Fault, d2\<lparr>trip := None, tables := tables d, snapshot := None\<rparr>)"
          using s2 by (simp add: rollback_after_fault)
        with b l c nd show ?thesis by (simp add: reorderTasks_def)
      next
        assume c: "execute Commit d2 = (Inr (), ?c) \<and> trip d2 \<noteq> Some 0"
        have r: "reorderTasks now pid ids d = (Inr (), ?c)"
          using b l c by (simp add: reorderTasks_def)
        have tc: "tables ?c = (tables d)\<lparr>tasks := map (reordered now pid ids) (tasks (tables d))\<rparr>"
          using tab by (simp add: apply_order_reordered)
        have "map tk_id (listTasks today (scoped_params All p) ?c) = ids"
          if "pid = Some p" "p \<noteq> []" "distinct ids" "distinct (map t_id (tasks (tables d)))"
            "t_id ` {t \<in> set (tasks (tables d)). t_project_id t = Some p} = set ids" for p
          using that(2,4,5,3)
        proof (rule listing_follows_order)
          show "tasks (tables ?c) = map (reordered now (Some p) ids) (tasks (tables d))"
            using tc that(1) by simp
        qed
        with r tc show ?thesis by auto
      qed
    qed
  qed
qed

lemma image_filter_set: "f ` {t \<in> set xs. P t} = set (map f (filter P xs))"
  by auto

theorem reorderTasks_transaction_witness:
  "map tk_id (listTasks ''2024-05-10'' (scoped_params All ''work-id'') reorder_demo) =
     [''t3'', ''t1'', ''t2''] \<and>
   map t_sort_order (tasks (tables reorder_demo)) = [1, 2, 0, 0, 1] \<and>
   tables (snd (reorderTasks ''2024-05-10T10:00:00.000Z'' (Some ''work-id'')
     [''t3'', ''t1'', ''t2''] (idle demo_store\<lparr>trip := Some 2\<rparr>))) = demo_store"
proof -
  let ?now = "''2024-05-10T10:00:00.000Z''" and ?ids = "[''t3'', ''t1'', ''t2'']"
  have a: "snapshot (idle demo_store) = None" by (simp add: idle_def)
  have di: "distinct ?ids" by simp
  have t: "trip (idle demo_store) = None" by (simp add: idle_def)
  have h: "distinct (map t_id (tasks (tables (idle demo_store))))"
    "t_id ` {t \<in> set (tasks (tables (idle demo_store))). t_project_id t = Some ''work-id''} = set ?ids"
    unfolding image_filter_set
    by (auto simp: idle_def demo_store_def mk_task_def)
  from reorderTasks_transaction [OF a, of ?now "Some ''work-id''" ?ids "''2024-05-10''"] t
  have "\<exists>d'. reorderTasks ?now (Some ''work-id'') ?ids (idle demo_store) = (Inr (), d') \<and>
        tables d' = (tables (idle demo_store))\<lparr>tasks :=
          map (reordered ?now (Some ''work-id'') ?ids) (tasks (tables (idle demo_store)))\<rparr> \<and>
        snapshot d' = None \<and>
        (\<forall>p. Some ''work-id'' = Some p \<and> p \<noteq> [] \<and> distinct ?ids \<and>
          distinct (map t_id (tasks (tables (idle demo_store)))) \<and>
          t_id ` {t \<in> set (tasks (tables (idle demo_store))). t_project_id t = Some p} = set ?ids \<longrightarrow>
          map tk_id (listTasks ''2024-05-10'' (scoped_params All p) d') = ?ids)"
    by blast
  then obtain d' where r: "reorderTasks ?now (Some ''work-id'') ?ids (idle demo_store) = (Inr (), d')"
    and tab: "tables d' = (tables (idle demo_store))\<lparr>tasks :=
        map (reordered ?now (Some ''work-id'') ?ids) (tasks (tables (idle demo_store)))\<rparr>"
    and l: "\<forall>p. Some ''work-id'' = Some p \<and> p \<noteq> [] \<and> distinct ?ids \<and>
          distinct (map t_id (tasks (tables (idle demo_store)))) \<and>
          t_id ` {t \<in> set (tasks (tables (idle demo_store))). t_project_id t = Some p} = set ?ids \<longrightarrow>
          map tk_id (listTasks ''2024-05-10'' (scoped_params All p) d') = ?ids"
    by blast
  from r have d': "reorder_demo = d'" by (simp add: reorder_demo_def)
  from l h di have 1: "map tk_id (listTasks ''2024-05-10'' (scoped_params All ''work-id'') d') = ?ids"
    by blast
  have 2: "map t_sort_order (tasks (tables d')) = [1, 2, 0, 0, 1]"
    unfolding tab by (simp add: idle_def demo_store_def mk_task_def reordered_def)
  have 3: "tables (snd (reorderTasks ?now (Some ''work-id'') ?ids (idle demo_store\<lparr>trip := Some 2\<rparr>)))
      = demo_store"
    by (simp add: reorderTasks_def execute_def tick_def on_tables_def rollback_rethrow_def
        update_task_sort_def idle_def)
  from 1 2 3 d' show ?thesis by simp
qed


subsection \<open>Backup: export, then import\<close>




















end
